theory Spec2Isabelle
  imports Main "HOL-Library.Word" "HOL-Library.Multiset" "HOL-Library.Signed_Division"
    "HOL-Library.Monad_Syntax"
begin

section \<open>Strings and decimal numbers\<close>

text \<open>
  A Go string is a sequence of bytes. It is modelled as a \<^typ>\<open>string\<close>, whose characters are
  8-bit values; text outside ASCII appears as its UTF-8 bytes.
\<close>

definition isDigit :: "char \<Rightarrow> bool" where
  "isDigit c = (48 \<le> (of_char c :: nat) \<and> (of_char c :: nat) \<le> 57)"

definition digit_val :: "char \<Rightarrow> int" where
  "digit_val c = int (of_char c) - 48"

definition digits_val :: "string \<Rightarrow> int" where
  "digits_val s = foldl (\<lambda>n ch. n * 10 + digit_val ch) 0 s"

datatype NumError = ErrSyntax | ErrRange

text \<open>
  \<open>strconv.Atoi\<close> on a 64-bit platform: an optional sign, then one or more decimal digits;
  a value outside the range of \<open>int\<close> is a range error.
\<close>

definition Atoi :: "string \<Rightarrow> NumError + int" where
  "Atoi s =
     (let neg = (s \<noteq> [] \<and> hd s = CHR ''-'');
          ds = (if s \<noteq> [] \<and> (hd s = CHR ''-'' \<or> hd s = CHR ''+'') then tl s else s)
      in if ds = [] \<or> \<not> list_all isDigit ds then Inl ErrSyntax
         else let n = (if neg then - digits_val ds else digits_val ds)
              in if n < - (2 ^ 63) \<or> 2 ^ 63 - 1 < n then Inl ErrRange else Inr n)"

fun decimal :: "nat \<Rightarrow> string" where
  "decimal n = (if n < 10 then [char_of (48 + n)] else decimal (n div 10) @ [char_of (48 + n mod 10)])"

declare decimal.simps [simp del]

text \<open>\<open>appendInt\<close> of package \<open>time\<close>: decimal digits, zero-padded on the left to \<open>width\<close>.\<close>

definition appendInt :: "int \<Rightarrow> nat \<Rightarrow> string" where
  "appendInt x width =
     (let ds = decimal (nat \<bar>x\<bar>)
      in (if x < 0 then ''-'' else '''') @ replicate (width - length ds) (CHR ''0'') @ ds)"

section \<open>Regular expressions of the program\<close>

text \<open>
  The three patterns of the program are sequences of literal text and capturing groups
  \<open>([0-9]+)\<close> (written \<open>(\d+)\<close> in two of them). \<open>match_here\<close> is the backtracking search at
  one start position, longest digit run first; \<open>FindStringSubmatch\<close> tries the start
  positions from the left and returns the whole match followed by the groups, or the empty
  list when there is no match. This is the leftmost-first match of package \<open>regexp\<close>.
  The search goes by bytes where \<open>regexp\<close> goes by runes; the two agree on these
  patterns, since a digit is one byte that always begins a rune, and the first byte of a
  literal of the patterns is never a continuation byte of UTF-8.
\<close>

datatype atom = Lit string | Digits

fun first_some :: "('a \<Rightarrow> 'b option) \<Rightarrow> 'a list \<Rightarrow> 'b option" where
  "first_some f [] = None"
| "first_some f (x # xs) = (case f x of Some y \<Rightarrow> Some y | None \<Rightarrow> first_some f xs)"

primrec match_here :: "atom list \<Rightarrow> string \<Rightarrow> (string list \<times> string) option" where
  "match_here [] s = Some ([], s)"
| "match_here (a # as) s =
     (case a of
        Lit l \<Rightarrow>
          (if take (length l) s = l then match_here as (drop (length l) s) else None)
      | Digits \<Rightarrow>
          first_some
            (\<lambda>n. case match_here as (drop n s) of
                    None \<Rightarrow> None
                  | Some (caps, rest) \<Rightarrow> Some (take n s # caps, rest))
            (rev [1 ..< Suc (length (takeWhile isDigit s))]))"

fun FindStringSubmatch :: "atom list \<Rightarrow> string \<Rightarrow> string list" where
  "FindStringSubmatch re s =
     (case match_here re s of
        Some (caps, rest) \<Rightarrow> take (length s - length rest) s # caps
      | None \<Rightarrow> (case s of [] \<Rightarrow> [] | c # t \<Rightarrow> FindStringSubmatch re t))"

declare FindStringSubmatch.simps [simp del]

section \<open>Identifier Extractor\<close>

definition re_release :: "atom list" where
  "re_release = [Lit ''/main/html/rd/p/'', Digits, Lit ''.'', Digits, Lit ''.html'']"

definition extractReleaseID :: "string \<Rightarrow> string" where
  "extractReleaseID releaseURL =
     (let matches = FindStringSubmatch re_release releaseURL
      in if length matches = 3 then matches ! 1 @ ''.'' @ matches ! 2 else '''')"

section \<open>Package time\<close>

text \<open>
  A \<open>Time\<close> is an instant: seconds since the Unix epoch, nanoseconds within the second, and the
  location it is displayed in, given as the offset from UTC (in seconds) in force at an instant.
  A \<open>Duration\<close> is a signed 64-bit count of nanoseconds; its arithmetic wraps around.
  The functions of this section are those of the Go library that the normalizer calls, for
  the two layouts it uses. \<open>Add\<close> leaves out the saturation at the ends of the range of
  \<open>Time\<close>, which lie billions of years from any clock reading.
\<close>

record Time =
  sec :: int
  nsec :: int
  loc :: "int \<Rightarrow> int"

definition UTC :: "int \<Rightarrow> int" where
  "UTC = (\<lambda>_. 0)"

type_synonym Duration = "64 word"

definition Minute :: Duration where
  "Minute = 60000000000"

definition Hour :: Duration where
  "Hour = 3600000000000"

definition Add :: "Time \<Rightarrow> Duration \<Rightarrow> Time" where
  "Add t d =
     (let dsec = sint d sdiv 1000000000;
          ns = nsec t + sint d smod 1000000000
      in if ns \<ge> 1000000000 then t\<lparr>sec := sec t + (dsec + 1), nsec := ns - 1000000000\<rparr>
         else if ns < 0 then t\<lparr>sec := sec t + (dsec - 1), nsec := ns + 1000000000\<rparr>
         else t\<lparr>sec := sec t + dsec, nsec := ns\<rparr>)"

definition isLeap :: "int \<Rightarrow> bool" where
  "isLeap year = (year mod 4 = 0 \<and> (year mod 100 \<noteq> 0 \<or> year mod 400 = 0))"

definition month_lengths :: "int \<Rightarrow> int list" where
  "month_lengths year =
     [31, if isLeap year then 29 else 28, 31, 30, 31, 30, 31, 31, 30, 31, 30, 31]"

definition daysIn :: "int \<Rightarrow> int \<Rightarrow> int" where
  "daysIn m year = month_lengths year ! nat (m - 1)"

definition days_before_year :: "int \<Rightarrow> int" where
  "days_before_year year =
     365 * (year - 1) + (year - 1) div 4 - (year - 1) div 100 + (year - 1) div 400"

text \<open>\<open>time.Date\<close> in UTC, for fields already in range, with seconds and nanoseconds 0.\<close>

definition Date :: "int \<Rightarrow> int \<Rightarrow> int \<Rightarrow> int \<Rightarrow> int \<Rightarrow> Time" where
  "Date year month day hour minute =
     \<lparr>sec = (days_before_year year + sum_list (take (nat (month - 1)) (month_lengths year))
              + (day - 1) - 719162) * 86400 + hour * 3600 + minute * 60,
      nsec = 0, loc = UTC\<rparr>"

fun month_day :: "int list \<Rightarrow> int \<Rightarrow> int \<Rightarrow> int \<times> int" where
  "month_day [] m d = (m, d + 1)"
| "month_day (len # ls) m d = (if d < len then (m, d + 1) else month_day ls (m + 1) (d - len))"

text \<open>
  The civil date (year, month, day) of a count of days since 1970-01-01 in the proleptic
  Gregorian calendar, by 400-, 100-, 4- and 1-year cycles counted from 0001-01-01.
\<close>

definition civil_date :: "int \<Rightarrow> int \<times> int \<times> int" where
  "civil_date d =
     (let days = d + 719162;
          n400 = days div 146097;
          r = days mod 146097;
          n100 = min 3 (r div 36524);
          r2 = r - 36524 * n100;
          n4 = r2 div 1461;
          r3 = r2 mod 1461;
          n1 = min 3 (r3 div 365);
          yday = r3 - 365 * n1;
          year = 400 * n400 + 100 * n100 + 4 * n4 + n1 + 1;
          md = month_day (month_lengths year) 1 yday
      in (year, fst md, snd md))"

text \<open>The fields (year, month, day, hour, minute) of a count of seconds since 1970-01-01 00:00.\<close>

definition civil :: "int \<Rightarrow> int \<times> int \<times> int \<times> int \<times> int" where
  "civil a =
     (case civil_date (a div 86400) of
        (year, month, day) \<Rightarrow> (year, month, day, a mod 86400 div 3600, a mod 86400 mod 3600 div 60))"

definition kanji_nen :: string where "kanji_nen = [CHR 0xE5, CHR 0xB9, CHR 0xB4]"
definition kanji_gatsu :: string where "kanji_gatsu = [CHR 0xE6, CHR 0x9C, CHR 0x88]"
definition kanji_nichi :: string where "kanji_nichi = [CHR 0xE6, CHR 0x97, CHR 0xA5]"
definition kanji_ji :: string where "kanji_ji = [CHR 0xE6, CHR 0x99, CHR 0x82]"
definition kanji_fun :: string where "kanji_fun = [CHR 0xE5, CHR 0x88, CHR 0x86]"
definition jikan_mae :: string where
  "jikan_mae = [CHR 0xE6, CHR 0x99, CHR 0x82, CHR 0xE9, CHR 0x96, CHR 0x93, CHR 0xE5, CHR 0x89, CHR 0x8D]"
definition fun_mae :: string where
  "fun_mae = [CHR 0xE5, CHR 0x88, CHR 0x86, CHR 0xE5, CHR 0x89, CHR 0x8D]"

text \<open>\<open>t.Format\<close> with the layout \<open>2006\<close> \<open>kanji_nen\<close> \<open>01\<close> \<open>kanji_gatsu\<close> \<open>02\<close> \<open>kanji_nichi\<close> \<open>15:04\<close>.\<close>

definition Format :: "Time \<Rightarrow> string" where
  "Format t =
     (case civil (sec t + loc t (sec t)) of
        (year, month, day, hour, minute) \<Rightarrow>
          appendInt year 4 @ kanji_nen @ appendInt month 2 @ kanji_gatsu @ appendInt day 2 @ kanji_nichi
            @ '' '' @ appendInt hour 2 @ '':'' @ appendInt minute 2)"

definition getnum :: "string \<Rightarrow> bool \<Rightarrow> (int \<times> string) option" where
  "getnum s fixed =
     (if \<not> (s \<noteq> [] \<and> isDigit (s ! 0)) then None
      else if \<not> (1 < length s \<and> isDigit (s ! 1)) then
        (if fixed then None else Some (digit_val (s ! 0), drop 1 s))
      else Some (digit_val (s ! 0) * 10 + digit_val (s ! 1), drop 2 s))"

definition cutspace :: "string \<Rightarrow> string" where
  "cutspace s = dropWhile (\<lambda>c. c = CHR '' '') s"

function skip :: "string \<Rightarrow> string \<Rightarrow> string option" where
  "skip v [] = Some v"
| "skip v (p # ps) =
     (if p = CHR '' '' then
        (if v \<noteq> [] \<and> hd v \<noteq> CHR '' '' then None else skip (cutspace v) (cutspace ps))
      else if v = [] \<or> hd v \<noteq> p then None
      else skip (tl v) ps)"
  by pat_completeness auto
termination
  by (relation "measure (\<lambda>(v, p). length p)")
     (auto simp: cutspace_def intro: le_imp_less_Suc length_dropWhile_le)

text \<open>
  \<open>time.Parse\<close> with the layout \<open>2006\<close> \<open>kanji_nen\<close> \<open>1\<close> \<open>kanji_gatsu\<close> \<open>2\<close> \<open>kanji_nichi\<close> \<open>15\<close> \<open>kanji_ji\<close> \<open>04\<close> \<open>fun\<close>:
  a four-digit year, a month and a day of one or two digits, an hour of one or two digits and
  a two-digit minute, separated by the literal text of the layout (a space of the layout
  stands for any run of spaces); then the range checks and the check of the day against the
  month. Every failure is the error result \<open>None\<close>.
\<close>

definition Parse :: "string \<Rightarrow> Time option" where
  "Parse v0 =
     (if length v0 < 4 \<or> \<not> isDigit (v0 ! 0) then None
      else if \<not> list_all isDigit (take 4 v0) then None
      else do {
        let year = digits_val (take 4 v0);
        v1 \<leftarrow> skip (drop 4 v0) kanji_nen;
        (month, v2) \<leftarrow> getnum v1 False;
        v3 \<leftarrow> (if month \<le> 0 \<or> 12 < month then None else skip v2 kanji_gatsu);
        (day, v4) \<leftarrow> getnum v3 False;
        v5 \<leftarrow> skip v4 (kanji_nichi @ '' '');
        (hour, v6) \<leftarrow> getnum v5 False;
        v7 \<leftarrow> (if hour < 0 \<or> 24 \<le> hour then None else skip v6 kanji_ji);
        (minute, v8) \<leftarrow> getnum v7 True;
        v9 \<leftarrow> (if minute < 0 \<or> 60 \<le> minute then None else skip v8 kanji_fun);
        if v9 \<noteq> [] then None
        else if day < 1 \<or> day > daysIn month year then None
        else Some (Date year month day hour minute)
      })"

section \<open>Date Normalizer\<close>

definition reHours :: "atom list" where
  "reHours = [Digits, Lit jikan_mae]"

definition reMinutes :: "atom list" where
  "reMinutes = [Digits, Lit fun_mae]"

definition relative :: "atom list \<Rightarrow> Duration \<Rightarrow> Time \<Rightarrow> string \<Rightarrow> string option" where
  "relative re unit now dateStr =
     (let matches = FindStringSubmatch re dateStr
      in if length matches = 2 then
           (case Atoi (matches ! 1) of
              Inr ago \<Rightarrow> Some (Format (Add now (- (word_of_int ago) * unit)))
            | Inl err \<Rightarrow> None)
         else None)"

definition parseReleaseDate :: "Time \<Rightarrow> string \<Rightarrow> string" where
  "parseReleaseDate now dateStr =
     (case relative reHours Hour now dateStr of
        Some formatted \<Rightarrow> formatted
      | None \<Rightarrow>
          (case relative reMinutes Minute now dateStr of
             Some formatted \<Rightarrow> formatted
           | None \<Rightarrow>
               (case Parse dateStr of
                  Some parsedTime \<Rightarrow> Format parsedTime
                | None \<Rightarrow> Format now)))"

section \<open>Upstream endpoints, scheduling and the clock\<close>

record Release =
  CompanyName :: string
  Title :: string
  ThumbnailURL :: string
  ReleaseURL :: string
  ReleasedAt :: string

record PRTimesResponse =
  CurrentPage :: int
  LastPage :: int
  ReleaseList :: "Release list"
  Status :: int
  Message :: string

record ResponseItem =
  CorporationName :: string
  PublishedDate :: string
  item_ThumbnailURL :: string
  PostURL :: string
  item_Title :: string
  LikeCount :: int

datatype fetch_site = Discovery | FanOut

datatype net_error = GetFailed | DecodeFailed

text \<open>
  Everything outside the program that a request depends on. The two endpoints answer each
  call with an error or a decoded body: \<open>listing\<close> answers \<open>fetchPRTimesData\<close>, separately for
  the call before the loop and for the call of a page's goroutine; \<open>like_count\<close> answers the
  \<open>fetchLikeCount\<close> call made for the release at an index of a page; \<open>clock\<close> is what
  \<open>time.Now\<close> returns while that release is processed. \<open>schedule\<close> picks, step by step, the
  goroutine that runs next, and \<open>ties\<close> the order in which \<open>sort.Slice\<close>, which is not stable,
  leaves elements that compare equal.
\<close>

record world =
  listing :: "fetch_site \<Rightarrow> string \<Rightarrow> int \<Rightarrow> net_error + PRTimesResponse"
  like_count :: "int \<Rightarrow> nat \<Rightarrow> string \<Rightarrow> net_error + int"
  clock :: "int \<Rightarrow> nat \<Rightarrow> Time"
  schedule :: "nat list"
  ties :: "nat list"

datatype event = GetListing string int | GetLikeCount string | Append ResponseItem

text \<open>
  The goroutines run concurrently; each is a sequence of events. \<open>interleave\<close> merges the
  sequences: at every step the schedule chooses one of the goroutines that still have events.
\<close>

function interleave :: "nat list \<Rightarrow> 'a list list \<Rightarrow> 'a list" where
  "interleave sched qs =
     (let live = filter (\<lambda>q. q \<noteq> []) qs
      in if live = [] then []
         else let k = (case sched of [] \<Rightarrow> 0 | c # _ \<Rightarrow> c mod length live)
              in hd (live ! k) # interleave (tl sched) (live[k := tl (live ! k)]))"
  by pat_completeness auto

lemma sum_length_live: "sum_list (map length (filter (\<lambda>q. q \<noteq> []) qs)) = sum_list (map length qs)"
  by (induction qs) auto

lemma sum_length_step:
  "k < length live \<Longrightarrow> live ! k \<noteq> [] \<Longrightarrow>
   Suc (sum_list (map length (live[k := tl (live ! k)]))) = sum_list (map length live)"
proof (induction live arbitrary: k)
  case Nil
  then show ?case by simp
next
  case (Cons q live)
  show ?case
  proof (cases k)
    case 0
    then show ?thesis using Cons.prems by (cases q) auto
  next
    case (Suc j)
    then show ?thesis using Cons.prems Cons.IH [of j] by simp
  qed
qed

lemma live_pick:
  "live = filter (\<lambda>q. q \<noteq> []) qs \<Longrightarrow> live \<noteq> [] \<Longrightarrow>
   k = (case sched of [] \<Rightarrow> 0 | c # _ \<Rightarrow> c mod length live) \<Longrightarrow>
   k < length live \<and> live ! k \<noteq> []"
proof -
  assume l: "live = filter (\<lambda>q. q \<noteq> []) qs" and ne: "live \<noteq> []"
    and k: "k = (case sched of [] \<Rightarrow> 0 | c # _ \<Rightarrow> c mod length live)"
  have "k < length live" using ne k by (cases sched) auto
  moreover from this have "live ! k \<in> set (filter (\<lambda>q. q \<noteq> []) qs)"
    using l nth_mem by metis
  ultimately show ?thesis by simp
qed

termination interleave
proof (relation "measure (\<lambda>(sched, qs). sum_list (map length qs))")
  show "wf (measure (\<lambda>(sched, qs). sum_list (map length qs)))" by simp
next
  fix sched :: "nat list" and qs :: "'a list list" and live k
  assume l: "live = filter (\<lambda>q. q \<noteq> []) qs" and ne: "live \<noteq> []"
    and k: "k = (case sched of [] \<Rightarrow> 0 | c # _ \<Rightarrow> c mod length live)"
  from live_pick [OF l ne k] have "k < length live" "live ! k \<noteq> []" by auto
  then have "Suc (sum_list (map length (live[k := tl (live ! k)]))) = sum_list (map length qs)"
    using sum_length_step [of k live] sum_length_live [of qs] l by simp
  then show "((tl sched, live[k := tl (live ! k)]), (sched, qs))
      \<in> measure (\<lambda>(sched, qs). sum_list (map length qs))"
    by simp
qed

declare interleave.simps [simp del]

text \<open>
  \<open>sort.Slice\<close> sorts by the given \<open>less\<close> and promises nothing about elements that compare
  equal: it is modelled as a stable insertion sort run on a reordering of the slice chosen by
  \<open>ties\<close>, so that every order of equal elements can come out.
\<close>

fun insert_by :: "('a \<Rightarrow> 'a \<Rightarrow> bool) \<Rightarrow> 'a \<Rightarrow> 'a list \<Rightarrow> 'a list" where
  "insert_by lt x [] = [x]"
| "insert_by lt x (y # ys) = (if lt x y then x # y # ys else y # insert_by lt x ys)"

definition sort_Slice :: "nat list \<Rightarrow> ('a \<Rightarrow> 'a \<Rightarrow> bool) \<Rightarrow> 'a list \<Rightarrow> 'a list" where
  "sort_Slice tie lt xs = foldr (insert_by lt) (interleave tie (map (\<lambda>x. [x]) xs)) []"

section \<open>Aggregation Orchestrator and Result Finalizer\<close>

type_synonym Values = "string \<Rightarrow> string list"

definition Get :: "Values \<Rightarrow> string \<Rightarrow> string" where
  "Get q key = (case q key of [] \<Rightarrow> '''' | v # _ \<Rightarrow> v)"

text \<open>The body of the loop over a page's releases, for the release at index \<open>i\<close>.\<close>

definition process_release :: "world \<Rightarrow> int \<Rightarrow> nat \<Rightarrow> Release \<Rightarrow> event list" where
  "process_release w page i release =
     (let releaseID = extractReleaseID (ReleaseURL release);
          likeCount = (case like_count w page i releaseID of Inl err \<Rightarrow> 0 | Inr n \<Rightarrow> n);
          item = \<lparr>CorporationName = CompanyName release,
                  PublishedDate = parseReleaseDate (clock w page i) (ReleasedAt release),
                  item_ThumbnailURL = ThumbnailURL release,
                  PostURL = ''https://prtimes.jp'' @ ReleaseURL release,
                  item_Title = Title release,
                  LikeCount = likeCount\<rparr>
      in [GetLikeCount releaseID, Append item])"

text \<open>The goroutine of one page.\<close>

definition page_task :: "world \<Rightarrow> string \<Rightarrow> int \<Rightarrow> event list" where
  "page_task w keyword page =
     GetListing keyword page #
     (case listing w FanOut keyword page of
        Inl err \<Rightarrow> []
      | Inr prTimesData \<Rightarrow>
          concat (map (\<lambda>(i, release). process_release w page i release)
                      (enumerate 0 (ReleaseList prTimesData))))"

text \<open>
  The loop that starts one goroutine per page, and the wait for all of them: the events of
  the goroutines in the order the schedule runs them.
\<close>

definition fan_out :: "world \<Rightarrow> string \<Rightarrow> int \<Rightarrow> event list" where
  "fan_out w keyword totalPages =
     interleave (schedule w) (map (page_task w keyword) [1 .. totalPages])"

fun appended :: "event list \<Rightarrow> ResponseItem list" where
  "appended [] = []"
| "appended (Append item # es) = item # appended es"
| "appended (e # es) = appended es"

datatype response = BadRequest string | InternalServerError string | OK "ResponseItem list"

definition less_LikeCount :: "ResponseItem \<Rightarrow> ResponseItem \<Rightarrow> bool" where
  "less_LikeCount a b = (LikeCount a > LikeCount b)"

text \<open>
  The \<open>limit\<close> query parameter: absent (or empty) is the limit 0; otherwise it must parse
  to a positive \<open>int\<close>, and \<open>None\<close> is the rejection.
\<close>

definition limit_of :: "Values \<Rightarrow> int option" where
  "limit_of q =
     (let limitStr = Get q ''limit''
      in if limitStr \<noteq> '''' then
           (case Atoi limitStr of
              Inl err \<Rightarrow> None
            | Inr limit \<Rightarrow> if limit \<le> 0 then None else Some limit)
         else Some 0)"

text \<open>The cut of the sorted results to the limit.\<close>

definition finalize :: "int \<Rightarrow> ResponseItem list \<Rightarrow> ResponseItem list" where
  "finalize limit results =
     (if limit > 0 \<and> int (length results) > limit then take (nat limit) results else results)"

text \<open>
  The handler returns the response and the upstream calls and appends in the order they
  happened. The result is \<open>None\<close> when the handler never returns: the page counter is a 64-bit
  \<open>int\<close>, and with \<open>totalPages\<close> at its maximum the increment wraps around and the loop
  condition never fails. The log lines and the failure of the response encoder (a broken
  connection) are left out.
\<close>

definition handlePRTimesPosts :: "world \<Rightarrow> Values \<Rightarrow> (response \<times> event list) option" where
  "handlePRTimesPosts w q =
     (let keyword = Get q ''keyword''
      in if keyword = '''' then Some (BadRequest ''keyword query parameter is required'', [])
         else
           case limit_of q of
             None \<Rightarrow> Some (BadRequest ''limit query parameter must be a positive integer'', [])
           | Some limit \<Rightarrow>
               (case listing w Discovery keyword 1 of
                  Inl err \<Rightarrow>
                    Some (InternalServerError ''Failed to fetch data from PR TIMES API'',
                          [GetListing keyword 1])
                | Inr firstPageData \<Rightarrow>
                    let totalPages = LastPage firstPageData
                    in if 2 ^ 63 - 1 \<le> totalPages then None
                       else
                         let trace = fan_out w keyword totalPages;
                             results = sort_Slice (ties w) less_LikeCount (appended trace)
                         in Some (OK (finalize limit results), GetListing keyword 1 # trace)))"

section \<open>Notions of the specification\<close>

definition digit_string :: "string \<Rightarrow> bool" where
  "digit_string d = (d \<noteq> [] \<and> list_all isDigit d)"

text \<open>
  An occurrence in \<open>s\<close> of the extractor's pattern: after \<open>pre\<close>, the fixed path, two digit
  groups \<open>d1\<close> and \<open>d2\<close> around a dot, the extension, and then \<open>suf\<close>.
\<close>

definition release_occurs :: "string \<Rightarrow> string \<Rightarrow> string \<Rightarrow> string \<Rightarrow> string \<Rightarrow> bool" where
  "release_occurs pre d1 d2 suf s =
     (s = pre @ ''/main/html/rd/p/'' @ d1 @ ''.'' @ d2 @ ''.html'' @ suf
      \<and> digit_string d1 \<and> digit_string d2)"

text \<open>
  The shape of a permalink in the specification's words: anything, then \<open>/p/\<close>, a number, a
  dot, a number, and \<open>.html\<close> at the end.
\<close>

definition spec_release_shape :: "string \<Rightarrow> bool" where
  "spec_release_shape s =
     (\<exists>pre d1 d2. s = pre @ ''/p/'' @ d1 @ ''.'' @ d2 @ ''.html'' \<and> digit_string d1 \<and> digit_string d2)"






text \<open>The result item of the release at index \<open>i\<close> of a page, and the items of a page.\<close>

definition expected_item :: "world \<Rightarrow> int \<Rightarrow> nat \<Rightarrow> Release \<Rightarrow> ResponseItem" where
  "expected_item w page i release =
     \<lparr>CorporationName = CompanyName release,
      PublishedDate = parseReleaseDate (clock w page i) (ReleasedAt release),
      item_ThumbnailURL = ThumbnailURL release,
      PostURL = ''https://prtimes.jp'' @ ReleaseURL release,
      item_Title = Title release,
      LikeCount = (case like_count w page i (extractReleaseID (ReleaseURL release)) of
                     Inl err \<Rightarrow> 0 | Inr n \<Rightarrow> n)\<rparr>"


section \<open>Example inputs\<close>


text \<open>2024-12-14 10:30:00.123456789 UTC, displayed at UTC+9.\<close>

definition example_now :: Time where
  "example_now = \<lparr>sec = 1734172200, nsec = 123456789, loc = (\<lambda>_. 32400)\<rparr>"

definition example_release :: "string \<Rightarrow> Release" where
  "example_release url =
     \<lparr>CompanyName = ''Acme'', Title = ''News'', ThumbnailURL = ''https://example.com/t.png'',
      ReleaseURL = url, ReleasedAt = ''unknown''\<rparr>"

definition example_page :: "int \<Rightarrow> int \<Rightarrow> Release list \<Rightarrow> PRTimesResponse" where
  "example_page page lastPage releases =
     \<lparr>CurrentPage = page, LastPage = lastPage, ReleaseList = releases, Status = 200,
      Message = ''''\<rparr>"

text \<open>
  An upstream that reports two pages; page 1 lists one release whose permalink has the
  identifier 5.6 and one without identifier; page 2 cannot be fetched. The popularity
  endpoint answers 3 for 5.6 and 7 for the empty identifier.
\<close>

definition example_world :: world where
  "example_world =
     \<lparr>listing = (\<lambda>site keyword page.
         if site = Discovery then Inr (example_page 1 2 [example_release ''/discovered''])
         else if page = 1 then
           Inr (example_page 1 2
                  [example_release ''/main/html/rd/p/5.6.html'', example_release ''/about''])
         else Inl GetFailed),
      like_count = (\<lambda>page i releaseID. if releaseID = '''' then Inr 7 else Inr 3),
      clock = (\<lambda>page i. example_now),
      schedule = [1, 0],
      ties = []\<rparr>"


text \<open>The same upstream, failing the first fetch.\<close>

definition example_world_down :: world where
  "example_world_down =
     example_world\<lparr>listing := (\<lambda>site keyword page. Inl GetFailed)\<rparr>"

definition query :: "string \<Rightarrow> string list \<Rightarrow> Values" where
  "query keyword limit =
     (\<lambda>key. if key = ''keyword'' then [keyword] else if key = ''limit'' then limit else [])"

text \<open>The items and the events of a request for the keyword \<open>go\<close> to that upstream.\<close>

definition example_item :: "string \<Rightarrow> int \<Rightarrow> ResponseItem" where
  "example_item url likes =
     \<lparr>CorporationName = ''Acme'',
      PublishedDate = ''2024'' @ kanji_nen @ ''12'' @ kanji_gatsu @ ''14'' @ kanji_nichi @ '' 19:30'',
      item_ThumbnailURL = ''https://example.com/t.png'',
      PostURL = ''https://prtimes.jp'' @ url,
      item_Title = ''News'',
      LikeCount = likes\<rparr>"

definition example_trace :: "event list" where
  "example_trace =
     [GetListing ''go'' 1, GetListing ''go'' 2, GetListing ''go'' 1,
      GetLikeCount ''5.6'', Append (example_item ''/main/html/rd/p/5.6.html'' 3),
      GetLikeCount '''', Append (example_item ''/about'' 7)]"

section \<open>Properties of the pattern search\<close>

lemma first_some_None: "first_some f xs = None \<longleftrightarrow> (\<forall>x\<in>set xs. f x = None)"
  by (induction xs) (auto split: option.splits)

lemma first_some_SomeD: "first_some f xs = Some y \<Longrightarrow> \<exists>x\<in>set xs. f x = Some y"
  by (induction xs) (auto split: option.splits)

lemma first_some_hd: "f x = Some y \<Longrightarrow> first_some f (x # xs) = Some y"
  by simp

lemma match_here_Lit:
  "match_here (Lit l # ps) s = Some r \<longleftrightarrow> (\<exists>t. s = l @ t \<and> match_here ps t = Some r)"
proof
  assume h: "match_here (Lit l # ps) s = Some r"
  then have a: "take (length l) s = l" and b: "match_here ps (drop (length l) s) = Some r"
    by (auto split: if_splits)
  from a have "s = l @ drop (length l) s"
    by (metis append_take_drop_id)
  with b show "\<exists>t. s = l @ t \<and> match_here ps t = Some r" by blast
next
  assume "\<exists>t. s = l @ t \<and> match_here ps t = Some r"
  then show "match_here (Lit l # ps) s = Some r" by auto
qed

lemma match_here_Lit_app [simp]: "match_here (Lit l # ps) (l @ t) = match_here ps t"
  by simp

lemma match_here_Digits:
  "match_here (Digits # ps) s =
     first_some
       (\<lambda>n. case match_here ps (drop n s) of
               None \<Rightarrow> None
             | Some (caps, rest) \<Rightarrow> Some (take n s # caps, rest))
       (rev [1 ..< Suc (length (takeWhile isDigit s))])"
  by simp

lemma takeWhile_digits_stop:
  "list_all isDigit d \<Longrightarrow> \<not> isDigit c \<Longrightarrow> takeWhile isDigit (d @ c # t) = d"
  by (induction d) auto

lemma match_here_Digits_Lit:
  assumes d: "d \<noteq> []" "list_all isDigit d" and c: "\<not> isDigit c"
  shows "match_here (Digits # Lit (c # l) # ps) (d @ (c # l) @ t) =
           (case match_here ps t of None \<Rightarrow> None | Some (caps, r) \<Rightarrow> Some (d # caps, r))"
proof -
  define s where "s = d @ (c # l) @ t"
  define f where "f = (\<lambda>n. case match_here (Lit (c # l) # ps) (drop n s) of
                    None \<Rightarrow> None
                  | Some (caps, rest) \<Rightarrow> Some (take n s # caps, rest))"
  have k: "length (takeWhile isDigit s) = length d"
    using takeWhile_digits_stop [OF d(2) c, of "l @ t"] by (simp add: s_def)
  have len: "0 < length d" using d(1) by simp
  have cands: "rev [1 ..< Suc (length d)] = length d # rev [1 ..< length d]"
    using len by (simp add: Suc_leI)
  have E: "match_here (Digits # Lit (c # l) # ps) s = first_some f (length d # rev [1 ..< length d])"
    by (simp only: match_here_Digits k cands f_def)
  have top: "f (length d) =
      (case match_here ps t of None \<Rightarrow> None | Some (caps, r) \<Rightarrow> Some (d # caps, r))"
    by (simp add: f_def s_def split: option.splits)
  have low: "f n = None" if n: "n \<in> set (rev [1 ..< length d])" for n
  proof -
    from n have nl: "n < length d" by simp
    then obtain x xs where dx: "drop n d = x # xs"
      by (cases "drop n d") auto
    have "x \<in> set d" using dx by (metis in_set_dropD list.set_intros(1))
    then have xd: "isDigit x" using d(2) by (simp add: list_all_iff)
    have "drop n s = x # xs @ (c # l) @ t" using nl dx by (simp add: s_def)
    then have "take (length (c # l)) (drop n s) \<noteq> c # l"
      using xd c by auto
    then show ?thesis by (simp add: f_def)
  qed
  show ?thesis
  proof (cases "match_here ps t")
    case None
    then have "f (length d) = None" using top by simp
    then have "first_some f (length d # rev [1 ..< length d]) = None"
      using low by (simp only: first_some_None set_simps) blast
    then show ?thesis using E None by (simp add: s_def)
  next
    case (Some r)
    then obtain caps rest where r: "r = (caps, rest)" by (cases r)
    have "f (length d) = Some (d # caps, rest)" using top Some r by simp
    then have "first_some f (length d # rev [1 ..< length d]) = Some (d # caps, rest)"
      by (rule first_some_hd)
    then show ?thesis using E Some r by (simp add: s_def)
  qed
qed

lemma match_here_Digits_LitD:
  assumes m: "match_here (Digits # Lit (c # l) # ps) s = Some (caps, r)"
  shows "\<exists>d t caps'. s = d @ (c # l) @ t \<and> d \<noteq> [] \<and> list_all isDigit d \<and>
            match_here ps t = Some (caps', r) \<and> caps = d # caps'"
proof -
  let ?f = "\<lambda>n. case match_here (Lit (c # l) # ps) (drop n s) of
                    None \<Rightarrow> None
                  | Some (caps, rest) \<Rightarrow> Some (take n s # caps, rest)"
  from m have "first_some ?f (rev [1 ..< Suc (length (takeWhile isDigit s))]) = Some (caps, r)"
    by simp
  then obtain n where n: "n \<in> set (rev [1 ..< Suc (length (takeWhile isDigit s))])"
      and fn: "?f n = Some (caps, r)"
    by (blast dest: first_some_SomeD)
  from n have n1: "1 \<le> n" and nk: "n \<le> length (takeWhile isDigit s)" by auto
  from fn obtain caps' where mm: "match_here (Lit (c # l) # ps) (drop n s) = Some (caps', r)"
      and caps: "caps = take n s # caps'"
    by (auto split: option.splits)
  from mm obtain t where t: "drop n s = (c # l) @ t" and mt: "match_here ps t = Some (caps', r)"
    unfolding match_here_Lit by blast
  have s: "s = take n s @ (c # l) @ t"
    using t by (metis append_take_drop_id)
  have "take n s = take n (takeWhile isDigit s)"
    using nk by (metis append_take_drop_id takeWhile_dropWhile_id take_append length_takeWhile_le
        diff_is_0_eq take_0 append_Nil2)
  then have "set (take n s) \<subseteq> set (takeWhile isDigit s)"
    by (metis set_take_subset)
  then have dig: "list_all isDigit (take n s)"
    by (auto simp: list_all_iff dest: set_takeWhileD)
  have ne: "take n s \<noteq> []"
    using n1 nk by (cases s) auto
  show ?thesis using s ne dig mt caps by blast
qed

lemma FindStringSubmatch_here:
  "match_here re s = Some (caps, rest) \<Longrightarrow>
   FindStringSubmatch re s = take (length s - length rest) s # caps"
  by (subst FindStringSubmatch.simps) simp

lemma FindStringSubmatch_skip:
  "match_here re (c # t) = None \<Longrightarrow> FindStringSubmatch re (c # t) = FindStringSubmatch re t"
  by (subst FindStringSubmatch.simps) simp

lemma FindStringSubmatch_empty:
  "match_here re [] = None \<Longrightarrow> FindStringSubmatch re [] = []"
  by (subst FindStringSubmatch.simps) simp

lemma FindStringSubmatch_leftmost:
  assumes "match_here re t = Some (caps, rest)"
    and "\<And>pre' t'. pre @ t = pre' @ t' \<Longrightarrow> length pre' < length pre \<Longrightarrow> match_here re t' = None"
  shows "FindStringSubmatch re (pre @ t) = take (length t - length rest) t # caps"
  using assms
proof (induction pre)
  case Nil
  then show ?case by (simp add: FindStringSubmatch_here)
next
  case (Cons c pre)
  have "match_here re ((c # pre) @ t) = None"
    using Cons.prems(2) [of "[]" "(c # pre) @ t"] by simp
  then have "FindStringSubmatch re ((c # pre) @ t) = FindStringSubmatch re (pre @ t)"
    by (simp add: FindStringSubmatch_skip)
  moreover have "FindStringSubmatch re (pre @ t) = take (length t - length rest) t # caps"
  proof (rule Cons.IH [OF Cons.prems(1)])
    fix pre' t' assume "pre @ t = pre' @ t'" "length pre' < length pre"
    then show "match_here re t' = None"
      using Cons.prems(2) [of "c # pre'" t'] by simp
  qed
  ultimately show ?case by simp
qed

lemma FindStringSubmatch_Nil_iff:
  "FindStringSubmatch re s = [] \<longleftrightarrow> (\<forall>pre t. s = pre @ t \<longrightarrow> match_here re t = None)"
proof (induction s)
  case Nil
  show ?case
  proof (cases "match_here re []")
    case None
    then show ?thesis by (simp add: FindStringSubmatch_empty)
  next
    case (Some r)
    then show ?thesis by (cases r) (auto simp: FindStringSubmatch_here)
  qed
next
  case (Cons c s)
  show ?case
  proof (cases "match_here re (c # s)")
    case None
    have "(\<forall>pre t. c # s = pre @ t \<longrightarrow> match_here re t = None) \<longleftrightarrow>
          (\<forall>pre t. s = pre @ t \<longrightarrow> match_here re t = None)"
    proof
      assume h: "\<forall>pre t. c # s = pre @ t \<longrightarrow> match_here re t = None"
      show "\<forall>pre t. s = pre @ t \<longrightarrow> match_here re t = None"
      proof (intro allI impI)
        fix pre t assume "s = pre @ t"
        then have "c # s = (c # pre) @ t" by simp
        then show "match_here re t = None" using h by blast
      qed
    next
      assume h: "\<forall>pre t. s = pre @ t \<longrightarrow> match_here re t = None"
      show "\<forall>pre t. c # s = pre @ t \<longrightarrow> match_here re t = None"
      proof (intro allI impI)
        fix pre t assume e: "c # s = pre @ t"
        show "match_here re t = None"
        proof (cases pre)
          case Nil
          then show ?thesis using e None by simp
        next
          case (Cons a pre')
          then have "s = pre' @ t" using e by simp
          then show ?thesis using h by blast
        qed
      qed
    qed
    then show ?thesis using Cons.IH None by (simp add: FindStringSubmatch_skip)
  next
    case (Some r)
    obtain caps rest where "r = (caps, rest)" by (cases r)
    then have "FindStringSubmatch re (c # s) \<noteq> []"
      using Some by (simp add: FindStringSubmatch_here)
    moreover have "\<not> (\<forall>pre t. c # s = pre @ t \<longrightarrow> match_here re t = None)"
      using Some by (metis append_Nil option.distinct(1))
    ultimately show ?thesis by simp
  qed
qed

lemma FindStringSubmatch_cases:
  "FindStringSubmatch re s = [] \<or>
   (\<exists>pre t caps rest. s = pre @ t \<and> match_here re t = Some (caps, rest) \<and>
      (\<forall>pre' t'. s = pre' @ t' \<and> length pre' < length pre \<longrightarrow> match_here re t' = None) \<and>
      FindStringSubmatch re s = take (length t - length rest) t # caps)"
proof (induction s)
  case Nil
  show ?case
  proof (cases "match_here re []")
    case None
    then show ?thesis by (simp add: FindStringSubmatch_empty)
  next
    case (Some r)
    obtain caps rest where r: "r = (caps, rest)" by (cases r)
    have "FindStringSubmatch re [] = take (length ([]::string) - length rest) [] # caps"
      using Some r by (simp add: FindStringSubmatch_here)
    then show ?thesis using Some r by auto
  qed
next
  case (Cons c s)
  show ?case
  proof (cases "match_here re (c # s)")
    case (Some r)
    obtain caps rest where r: "r = (caps, rest)" by (cases r)
    have "FindStringSubmatch re (c # s) = take (length (c # s) - length rest) (c # s) # caps"
      using Some r by (simp add: FindStringSubmatch_here)
    moreover have "c # s = [] @ (c # s)" by simp
    ultimately show ?thesis using Some r
      by (metis length_0_conv less_nat_zero_code list.size(3))
  next
    case None
    then have sk: "FindStringSubmatch re (c # s) = FindStringSubmatch re s"
      by (simp add: FindStringSubmatch_skip)
    from Cons.IH show ?thesis
    proof
      assume "FindStringSubmatch re s = []"
      then show ?thesis using sk by simp
    next
      assume "\<exists>pre t caps rest. s = pre @ t \<and> match_here re t = Some (caps, rest) \<and>
        (\<forall>pre' t'. s = pre' @ t' \<and> length pre' < length pre \<longrightarrow> match_here re t' = None) \<and>
        FindStringSubmatch re s = take (length t - length rest) t # caps"
      then obtain pre t caps rest where s: "s = pre @ t"
        and m: "match_here re t = Some (caps, rest)"
        and e: "\<And>pre' t'. s = pre' @ t' \<Longrightarrow> length pre' < length pre \<Longrightarrow> match_here re t' = None"
        and f: "FindStringSubmatch re s = take (length t - length rest) t # caps"
        by blast
      have e': "match_here re t' = None"
        if "c # s = pre' @ t'" "length pre' < length (c # pre)" for pre' t'
      proof (cases pre')
        case Nil
        then show ?thesis using that None by simp
      next
        case (Cons a p)
        then show ?thesis using that e [of p t'] by simp
      qed
      have "c # s = (c # pre) @ t" using s by simp
      then show ?thesis using m e' f sk by metis
    qed
  qed
qed

lemma not_isDigit_dot [simp]: "\<not> isDigit CHR ''.''"
  by (simp add: isDigit_def)

lemma match_here_release:
  assumes "digit_string d1" "digit_string d2"
  shows "match_here re_release (''/main/html/rd/p/'' @ d1 @ ''.'' @ d2 @ ''.html'' @ suf)
           = Some ([d1, d2], suf)"
proof -
  have a: "match_here [Digits, Lit ''.html''] (d2 @ ''.html'' @ suf) = Some ([d2], suf)"
    using match_here_Digits_Lit [of d2 "CHR ''.''" "''html''" "[]" suf] assms(2)
    by (simp add: digit_string_def)
  have b: "match_here [Digits, Lit ''.'', Digits, Lit ''.html''] (d1 @ ''.'' @ d2 @ ''.html'' @ suf)
             = Some ([d1, d2], suf)"
    using match_here_Digits_Lit [of d1 "CHR ''.''" "[]" "[Digits, Lit ''.html'']" "d2 @ ''.html'' @ suf"]
      assms(1) a
    by (simp add: digit_string_def)
  have "match_here (Lit ''/main/html/rd/p/'' # [Digits, Lit ''.'', Digits, Lit ''.html''])
          (''/main/html/rd/p/'' @ (d1 @ ''.'' @ d2 @ ''.html'' @ suf)) = Some ([d1, d2], suf)"
    by (simp only: match_here_Lit_app b)
  then show ?thesis by (simp add: re_release_def)
qed

lemma match_here_releaseD:
  assumes "match_here re_release t = Some (caps, rest)"
  shows "\<exists>d1 d2. t = ''/main/html/rd/p/'' @ d1 @ ''.'' @ d2 @ ''.html'' @ rest
            \<and> digit_string d1 \<and> digit_string d2 \<and> caps = [d1, d2]"
proof -
  from assms have "match_here (Lit ''/main/html/rd/p/'' # [Digits, Lit ''.'', Digits, Lit ''.html'']) t
      = Some (caps, rest)"
    by (simp add: re_release_def)
  then obtain t1 where t1: "t = ''/main/html/rd/p/'' @ t1"
    and m1: "match_here [Digits, Lit ''.'', Digits, Lit ''.html''] t1 = Some (caps, rest)"
    unfolding match_here_Lit by blast
  from match_here_Digits_LitD [of "CHR ''.''" "[]" "[Digits, Lit ''.html'']" t1 caps rest] m1
  obtain d1 t2 caps' where t2: "t1 = d1 @ ''.'' @ t2" and d1: "d1 \<noteq> []" "list_all isDigit d1"
    and m2: "match_here [Digits, Lit ''.html''] t2 = Some (caps', rest)" and c: "caps = d1 # caps'"
    by auto
  from match_here_Digits_LitD [of "CHR ''.''" "''html''" "[]" t2 caps' rest] m2
  obtain d2 t3 caps'' where t3: "t2 = d2 @ ''.html'' @ t3" and d2: "d2 \<noteq> []" "list_all isDigit d2"
    and m3: "match_here [] t3 = Some (caps'', rest)" and c': "caps' = d2 # caps''"
    by auto
  from m3 have "t3 = rest" "caps'' = []" by auto
  then show ?thesis using t1 t2 t3 d1 d2 c c' by (auto simp: digit_string_def)
qed

lemma extractReleaseID_of_match:
  "FindStringSubmatch re_release s = whole # [d1, d2] \<Longrightarrow> extractReleaseID s = d1 @ ''.'' @ d2"
  by (simp add: extractReleaseID_def)

lemma extractReleaseID_no_match:
  "FindStringSubmatch re_release s = [] \<Longrightarrow> extractReleaseID s = ''''"
  by (simp add: extractReleaseID_def)

lemma release_first_occurrence:
  assumes o: "release_occurs pre d1 d2 suf s"
    and first: "\<And>pre' e1 e2 suf'. release_occurs pre' e1 e2 suf' s \<Longrightarrow> length pre \<le> length pre'"
  shows "extractReleaseID s = d1 @ ''.'' @ d2"
proof -
  let ?t = "''/main/html/rd/p/'' @ d1 @ ''.'' @ d2 @ ''.html'' @ suf"
  from o have s: "s = pre @ ?t" and d: "digit_string d1" "digit_string d2"
    by (auto simp: release_occurs_def)
  have m: "match_here re_release ?t = Some ([d1, d2], suf)"
    using d by (rule match_here_release)
  have none: "match_here re_release t' = None"
    if e: "pre @ ?t = pre' @ t'" and l: "length pre' < length pre" for pre' t'
  proof (rule ccontr)
    assume "match_here re_release t' \<noteq> None"
    then obtain caps rest where "match_here re_release t' = Some (caps, rest)" by auto
    from match_here_releaseD [OF this] obtain e1 e2
      where "t' = ''/main/html/rd/p/'' @ e1 @ ''.'' @ e2 @ ''.html'' @ rest"
        "digit_string e1" "digit_string e2"
      by blast
    then have "release_occurs pre' e1 e2 rest s"
      using s e by (simp add: release_occurs_def)
    from first [OF this] l show False by simp
  qed
  have "FindStringSubmatch re_release (pre @ ?t) = take (length ?t - length suf) ?t # [d1, d2]"
    using m none by (rule FindStringSubmatch_leftmost)
  then show ?thesis using s by (simp only: extractReleaseID_of_match)
qed

lemma FindStringSubmatch_NilD:
  "FindStringSubmatch re (pre @ t) = [] \<Longrightarrow> match_here re t = None"
  using FindStringSubmatch_Nil_iff [of re "pre @ t"] by blast

lemma FindStringSubmatch_NilI:
  "(\<And>pre t. s = pre @ t \<Longrightarrow> match_here re t = None) \<Longrightarrow> FindStringSubmatch re s = []"
  using FindStringSubmatch_Nil_iff [of re s] by blast

lemma release_occurs_nonempty:
  assumes o: "release_occurs pre d1 d2 suf s"
  shows "extractReleaseID s \<noteq> ''''"
proof -
  let ?t = "''/main/html/rd/p/'' @ d1 @ ''.'' @ d2 @ ''.html'' @ suf"
  from o have s: "s = pre @ ?t" and d: "digit_string d1" "digit_string d2"
    by (simp_all add: release_occurs_def)
  have "match_here re_release ?t = Some ([d1, d2], suf)"
    using d by (rule match_here_release)
  then have ne: "FindStringSubmatch re_release s \<noteq> []"
    using FindStringSubmatch_NilD [of re_release pre ?t] s by auto
  from FindStringSubmatch_cases [of re_release s] ne
  obtain t caps rest where m: "match_here re_release t = Some (caps, rest)"
    and f: "FindStringSubmatch re_release s = take (length t - length rest) t # caps"
    by blast
  from match_here_releaseD [OF m] obtain e1 e2 where "caps = [e1, e2]"
    by blast
  then have "extractReleaseID s = e1 @ ''.'' @ e2"
    using f by (simp only: extractReleaseID_of_match)
  then show ?thesis by simp
qed

lemma no_release_empty:
  assumes n: "\<And>pre d1 d2 suf. \<not> release_occurs pre d1 d2 suf s"
  shows "extractReleaseID s = ''''"
proof -
  have "match_here re_release t = None" if st: "s = pre @ t" for pre t
  proof (cases "match_here re_release t")
    case None
    then show ?thesis .
  next
    case (Some r)
    obtain caps rest where "r = (caps, rest)" by (cases r)
    with Some have "match_here re_release t = Some (caps, rest)" by simp
    from match_here_releaseD [OF this] obtain d1 d2
      where "t = ''/main/html/rd/p/'' @ d1 @ ''.'' @ d2 @ ''.html'' @ rest"
        and "digit_string d1" "digit_string d2"
      by blast
    then have "release_occurs pre d1 d2 rest s"
      using st by (simp add: release_occurs_def)
    with n show ?thesis by blast
  qed
  then have "FindStringSubmatch re_release s = []"
    by (rule FindStringSubmatch_NilI)
  then show ?thesis by (rule extractReleaseID_no_match)
qed

lemma extractReleaseID_empty_iff:
  "extractReleaseID s = '''' \<longleftrightarrow> \<not> (\<exists>pre d1 d2 suf. release_occurs pre d1 d2 suf s)"
  using release_occurs_nonempty [of _ _ _ _ s] no_release_empty [of s] by blast

section \<open>Properties of the calendar and of the formatter\<close>







lemma isDigit_zero [simp]: "isDigit CHR ''0''"
  by (simp add: isDigit_def)











lemma digit_val_bounds: "isDigit c \<Longrightarrow> 0 \<le> digit_val c \<and> digit_val c \<le> 9"
  by (auto simp: isDigit_def digit_val_def)

lemma getnum_bounds:
  "getnum s fixed = Some (n, rest) \<Longrightarrow> 0 \<le> n \<and> n \<le> 99"
  using digit_val_bounds [of "s ! 0"] digit_val_bounds [of "s ! 1"]
  by (auto simp: getnum_def split: if_splits)








section \<open>Properties of the Date Normalizer\<close>










lemma isDigit_not_sign [simp]: "\<not> isDigit CHR ''-''" "\<not> isDigit CHR ''+''"
  by (simp_all add: isDigit_def)





















section \<open>Properties of interleaving and sorting\<close>

lemma concat_live: "concat (filter (\<lambda>q. q \<noteq> []) qs) = concat qs"
  by (induction qs) auto

lemma no_live_concat: "filter (\<lambda>q. q \<noteq> []) qs = [] \<Longrightarrow> concat qs = []"
  using concat_live [of qs] by simp

lemma mset_concat_step:
  "k < length live \<Longrightarrow> live ! k \<noteq> [] \<Longrightarrow>
   mset (concat live) = add_mset (hd (live ! k)) (mset (concat (live[k := tl (live ! k)])))"
proof (induction live arbitrary: k)
  case Nil
  then show ?case by simp
next
  case (Cons q live)
  show ?case
  proof (cases k)
    case 0
    then show ?thesis using Cons.prems by (cases q) auto
  next
    case (Suc j)
    then show ?thesis using Cons.prems Cons.IH [of j] by simp
  qed
qed

lemma interleave_Nil: "filter (\<lambda>q. q \<noteq> []) qs = [] \<Longrightarrow> interleave sched qs = []"
  by (subst interleave.simps) simp

lemma interleave_step:
  assumes "live = filter (\<lambda>q. q \<noteq> []) qs" "live \<noteq> []"
    "k = (case sched of [] \<Rightarrow> 0 | c # _ \<Rightarrow> c mod length live)"
  shows "interleave sched qs = hd (live ! k) # interleave (tl sched) (live[k := tl (live ! k)])"
proof -
  have "interleave sched qs =
     (let live = filter (\<lambda>q. q \<noteq> []) qs
      in if live = [] then []
         else let k = (case sched of [] \<Rightarrow> 0 | c # _ \<Rightarrow> c mod length live)
              in hd (live ! k) # interleave (tl sched) (live[k := tl (live ! k)]))"
    by (rule interleave.simps)
  then show ?thesis unfolding Let_def assms(1) [symmetric] assms(3) [symmetric]
    using assms(2) by simp
qed

lemma mset_interleave: "mset (interleave sched qs) = mset (concat qs)"
proof (induction sched qs rule: interleave.induct)
  case (1 sched qs)
  define live where "live = filter (\<lambda>q. q \<noteq> []) qs"
  define k where "k = (case sched of [] \<Rightarrow> 0 | c # _ \<Rightarrow> c mod length live)"
  show ?case
  proof (cases "live = []")
    case True
    then show ?thesis
      using interleave_Nil [of qs sched] no_live_concat [of qs] by (simp add: live_def)
  next
    case False
    from live_pick [OF live_def False k_def] have k: "k < length live" "live ! k \<noteq> []"
      by simp_all
    have "mset (interleave sched qs)
        = add_mset (hd (live ! k)) (mset (interleave (tl sched) (live[k := tl (live ! k)])))"
      using interleave_step [OF live_def False k_def] by simp
    also have "\<dots> = add_mset (hd (live ! k)) (mset (concat (live[k := tl (live ! k)])))"
      using "1.IH" [OF live_def False k_def] by simp
    also have "\<dots> = mset (concat live)"
      using mset_concat_step [OF k] by simp
    also have "\<dots> = mset (concat qs)"
      by (simp add: live_def concat_live)
    finally show ?thesis .
  qed
qed

lemma length_interleave: "length (interleave sched qs) = length (concat qs)"
  using mset_interleave [of sched qs] by (metis size_mset)

lemma set_interleave: "set (interleave sched qs) = set (concat qs)"
  using mset_interleave [of sched qs] by (metis set_mset_mset)

lemma mset_insert_by: "mset (insert_by lt x ys) = add_mset x (mset ys)"
  by (induction ys) auto

lemma mset_insertion_sort: "mset (foldr (insert_by lt) ys []) = mset ys"
  by (induction ys) (auto simp: mset_insert_by)

lemma concat_singletons: "concat (map (\<lambda>x. [x]) xs) = xs"
  by (induction xs) auto

lemma mset_sort_Slice: "mset (sort_Slice tie lt xs) = mset xs"
  by (simp add: sort_Slice_def mset_insertion_sort mset_interleave concat_singletons)

lemma length_sort_Slice: "length (sort_Slice tie lt xs) = length xs"
  using mset_sort_Slice [of tie lt xs] by (metis size_mset)

lemma set_insert_by: "set (insert_by lt x ys) = insert x (set ys)"
  using mset_insert_by [of lt x ys] by (metis set_mset_add_mset_insert set_mset_mset)

lemma sorted_insert_by:
  "sorted_wrt (\<lambda>a b. LikeCount b \<le> LikeCount a) ys \<Longrightarrow>
   sorted_wrt (\<lambda>a b. LikeCount b \<le> LikeCount a) (insert_by less_LikeCount x ys)"
proof (induction ys)
  case Nil
  then show ?case by simp
next
  case (Cons y ys)
  show ?case
  proof (cases "less_LikeCount x y")
    case True
    then show ?thesis using Cons.prems by (auto simp: less_LikeCount_def)
  next
    case False
    then show ?thesis using Cons by (auto simp: less_LikeCount_def set_insert_by)
  qed
qed

lemma sorted_insertion_sort:
  "sorted_wrt (\<lambda>a b. LikeCount b \<le> LikeCount a) (foldr (insert_by less_LikeCount) ys [])"
  by (induction ys) (simp_all add: sorted_insert_by)

lemma sorted_sort_Slice:
  "sorted_wrt (\<lambda>a b. LikeCount b \<le> LikeCount a) (sort_Slice tie less_LikeCount xs)"
  by (simp add: sort_Slice_def sorted_insertion_sort)

lemma sorted_wrt_take: "sorted_wrt R xs \<Longrightarrow> sorted_wrt R (take n xs)"
  by (induction xs arbitrary: n) (auto simp: take_Cons' dest: in_set_takeD)

section \<open>Properties of the handler\<close>





lemma process_release_events:
  "process_release w page i release =
     [GetLikeCount (extractReleaseID (ReleaseURL release)), Append (expected_item w page i release)]"
  by (simp add: process_release_def expected_item_def Let_def)



lemma Atoi_empty [simp]: "Atoi [] = Inl ErrSyntax"
  by (simp add: Atoi_def)

lemma limit_of_Some:
  "limit_of q = Some limit \<longleftrightarrow>
     (Get q ''limit'' = '''' \<and> limit = 0) \<or> (Atoi (Get q ''limit'') = Inr limit \<and> 0 < limit)"
  by (auto simp: limit_of_def Let_def split: sum.splits)

lemma limit_of_None:
  "limit_of q = None \<longleftrightarrow>
     Get q ''limit'' \<noteq> '''' \<and> (case Atoi (Get q ''limit'') of Inl err \<Rightarrow> True | Inr l \<Rightarrow> l \<le> 0)"
  by (auto simp: limit_of_def Let_def split: sum.splits)

lemma handler_no_keyword:
  "Get q ''keyword'' = '''' \<Longrightarrow>
   handlePRTimesPosts w q = Some (BadRequest ''keyword query parameter is required'', [])"
  by (simp add: handlePRTimesPosts_def)

lemma handler_bad_limit:
  "Get q ''keyword'' \<noteq> '''' \<Longrightarrow> limit_of q = None \<Longrightarrow>
   handlePRTimesPosts w q
     = Some (BadRequest ''limit query parameter must be a positive integer'', [])"
  by (simp add: handlePRTimesPosts_def)

lemma handler_first_page_failed:
  "Get q ''keyword'' \<noteq> '''' \<Longrightarrow> limit_of q = Some limit \<Longrightarrow>
   listing w Discovery (Get q ''keyword'') 1 = Inl err \<Longrightarrow>
   handlePRTimesPosts w q
     = Some (InternalServerError ''Failed to fetch data from PR TIMES API'',
             [GetListing (Get q ''keyword'') 1])"
  by (simp add: handlePRTimesPosts_def)

lemma handler_never_returns:
  "Get q ''keyword'' \<noteq> '''' \<Longrightarrow> limit_of q = Some limit \<Longrightarrow>
   listing w Discovery (Get q ''keyword'') 1 = Inr firstPageData \<Longrightarrow>
   2 ^ 63 - 1 \<le> LastPage firstPageData \<Longrightarrow>
   handlePRTimesPosts w q = None"
  by (simp add: handlePRTimesPosts_def)

lemma handler_success:
  assumes "Get q ''keyword'' \<noteq> ''''" "limit_of q = Some limit"
    "listing w Discovery (Get q ''keyword'') 1 = Inr firstPageData"
    "LastPage firstPageData < 2 ^ 63 - 1"
  shows "handlePRTimesPosts w q =
           Some (OK (finalize limit (sort_Slice (ties w) less_LikeCount
                       (appended (fan_out w (Get q ''keyword'') (LastPage firstPageData))))),
                 GetListing (Get q ''keyword'') 1
                   # fan_out w (Get q ''keyword'') (LastPage firstPageData))"
  using assms by (simp add: handlePRTimesPosts_def Let_def)

lemma handler_OK_D:
  assumes h: "handlePRTimesPosts w q = Some (OK items, trace)"
  shows "\<exists>limit firstPageData.
           Get q ''keyword'' \<noteq> '''' \<and> limit_of q = Some limit
           \<and> listing w Discovery (Get q ''keyword'') 1 = Inr firstPageData
           \<and> LastPage firstPageData < 2 ^ 63 - 1
           \<and> items = finalize limit (sort_Slice (ties w) less_LikeCount
                         (appended (fan_out w (Get q ''keyword'') (LastPage firstPageData))))
           \<and> trace = GetListing (Get q ''keyword'') 1
                        # fan_out w (Get q ''keyword'') (LastPage firstPageData)"
proof -
  have kw: "Get q ''keyword'' \<noteq> ''''"
    using h handler_no_keyword [of q w] by auto
  obtain limit where l: "limit_of q = Some limit"
    using h handler_bad_limit [OF kw, of w] by (cases "limit_of q") auto
  obtain fp where f: "listing w Discovery (Get q ''keyword'') 1 = Inr fp"
    using h handler_first_page_failed [OF kw l, of w]
    by (cases "listing w Discovery (Get q ''keyword'') 1") auto
  have p: "LastPage fp < 2 ^ 63 - 1"
    using h handler_never_returns [OF kw l f] by (cases "2 ^ 63 - 1 \<le> LastPage fp") auto
  from handler_success [OF kw l f p] h show ?thesis using kw l f p by auto
qed

section \<open>The claims about the Identifier Extractor\<close>

lemma not_spec_release_shape:
  "last s \<noteq> CHR ''l'' \<Longrightarrow> \<not> spec_release_shape s"
  by (auto simp: spec_release_shape_def)

lemma digit_string_examples:
  "digit_string ''123''" "digit_string ''456''" "digit_string ''12''" "digit_string ''34''"
  by (simp_all add: digit_string_def isDigit_def)

text \<open>
  C5, as stated, fails in both directions. A path with text after \<open>.html\<close> is not of the
  shape of the specification, and the extractor still returns its identifier; a path of that
  shape under another directory than \<open>/main/html/rd\<close> gets the empty string.
\<close>

theorem extractReleaseID_shape_counterexample:
  "\<not> spec_release_shape ''/main/html/rd/p/123.456.html?ref=top''
   \<and> extractReleaseID ''/main/html/rd/p/123.456.html?ref=top'' = ''123.456''
   \<and> spec_release_shape ''/release/p/123.456.html''
   \<and> extractReleaseID ''/release/p/123.456.html'' = ''''"
proof (intro conjI)
  show "\<not> spec_release_shape ''/main/html/rd/p/123.456.html?ref=top''"
    by (rule not_spec_release_shape) simp
  show "extractReleaseID ''/main/html/rd/p/123.456.html?ref=top'' = ''123.456''"
    by code_simp
  have "''/release/p/123.456.html'' = ''/release'' @ ''/p/'' @ ''123'' @ ''.'' @ ''456'' @ ''.html''"
    by simp
  then show "spec_release_shape ''/release/p/123.456.html''"
    unfolding spec_release_shape_def using digit_string_examples by blast
  show "extractReleaseID ''/release/p/123.456.html'' = ''''"
    by code_simp
qed

text \<open>
  C5, amended: the extractor maps the path \<open>/main/html/rd/p/\<close>, digits, a dot, digits,
  \<open>.html\<close> to the two digit groups joined by a dot (so \<open>/main/html/rd/p/123.456.html\<close> yields
  \<open>123.456\<close>), and it returns the empty string exactly for the strings in which that pattern
  occurs nowhere.
\<close>

theorem extractReleaseID_pattern:
  "(digit_string d1 \<and> digit_string d2 \<longrightarrow>
      extractReleaseID (''/main/html/rd/p/'' @ d1 @ ''.'' @ d2 @ ''.html'') = d1 @ ''.'' @ d2)
   \<and> extractReleaseID ''/main/html/rd/p/123.456.html'' = ''123.456''
   \<and> (extractReleaseID s = '''' \<longleftrightarrow> \<not> (\<exists>pre e1 e2 suf. release_occurs pre e1 e2 suf s))"
proof (intro conjI impI)
  assume d: "digit_string d1 \<and> digit_string d2"
  have "release_occurs [] d1 d2 [] (''/main/html/rd/p/'' @ d1 @ ''.'' @ d2 @ ''.html'')"
    using d by (simp add: release_occurs_def)
  then show "extractReleaseID (''/main/html/rd/p/'' @ d1 @ ''.'' @ d2 @ ''.html'') = d1 @ ''.'' @ d2"
    by (rule release_first_occurrence) simp
next
  show "extractReleaseID ''/main/html/rd/p/123.456.html'' = ''123.456''"
    by code_simp
next
  show "extractReleaseID s = '''' \<longleftrightarrow> \<not> (\<exists>pre e1 e2 suf. release_occurs pre e1 e2 suf s)"
    by (rule extractReleaseID_empty_iff)
qed

theorem extractReleaseID_pattern_witness:
  "digit_string ''12'' \<and> digit_string ''34''
   \<and> extractReleaseID (''/main/html/rd/p/'' @ ''12'' @ ''.'' @ ''34'' @ ''.html'') = ''12'' @ ''.'' @ ''34''"
  using extractReleaseID_pattern [of "''12''" "''34''" "''''"] digit_string_examples
  by blast

text \<open>
  C10: the match is not anchored. Whenever the pattern occurs in the input, with any text
  before and after it, the result is not empty: it is the two digit groups of the leftmost
  occurrence, joined by a dot.
\<close>

theorem extractReleaseID_unanchored:
  assumes "release_occurs pre d1 d2 suf s"
  shows "extractReleaseID s \<noteq> '''' \<and>
         (\<exists>pre0 e1 e2 suf0.
            release_occurs pre0 e1 e2 suf0 s \<and>
            (\<forall>pre' f1 f2 suf'. release_occurs pre' f1 f2 suf' s \<longrightarrow> length pre0 \<le> length pre') \<and>
            extractReleaseID s = e1 @ ''.'' @ e2)"
proof -
  have ne: "extractReleaseID s \<noteq> ''''"
    using assms by (rule release_occurs_nonempty)
  then have "FindStringSubmatch re_release s \<noteq> []"
    using extractReleaseID_no_match by blast
  with FindStringSubmatch_cases [of re_release s]
  obtain pre0 t caps rest where s: "s = pre0 @ t"
    and m: "match_here re_release t = Some (caps, rest)"
    and e: "\<And>pre' t'. s = pre' @ t' \<Longrightarrow> length pre' < length pre0 \<Longrightarrow> match_here re_release t' = None"
    by blast
  from match_here_releaseD [OF m] obtain e1 e2
    where t: "t = ''/main/html/rd/p/'' @ e1 @ ''.'' @ e2 @ ''.html'' @ rest"
      and d: "digit_string e1" "digit_string e2"
    by blast
  have o: "release_occurs pre0 e1 e2 rest s"
    using s t d by (simp add: release_occurs_def)
  have least: "length pre0 \<le> length pre'" if o': "release_occurs pre' f1 f2 suf' s" for pre' f1 f2 suf'
  proof (rule ccontr)
    assume "\<not> length pre0 \<le> length pre'"
    then have l: "length pre' < length pre0" by simp
    from o' have "s = pre' @ (''/main/html/rd/p/'' @ f1 @ ''.'' @ f2 @ ''.html'' @ suf')"
      and "digit_string f1" "digit_string f2"
      by (auto simp: release_occurs_def)
    then show False using e [OF _ l] match_here_release [of f1 f2 suf'] by auto
  qed
  have "extractReleaseID s = e1 @ ''.'' @ e2"
    using o least by (rule release_first_occurrence)
  with ne o least show ?thesis by blast
qed

theorem extractReleaseID_unanchored_witness:
  "release_occurs ''https://prtimes.jp'' ''12'' ''34'' ''?a=/main/html/rd/p/5.6.html''
     ''https://prtimes.jp/main/html/rd/p/12.34.html?a=/main/html/rd/p/5.6.html''
   \<and> extractReleaseID ''https://prtimes.jp/main/html/rd/p/12.34.html?a=/main/html/rd/p/5.6.html''
       \<noteq> ''''"
proof -
  have o: "release_occurs ''https://prtimes.jp'' ''12'' ''34'' ''?a=/main/html/rd/p/5.6.html''
     ''https://prtimes.jp/main/html/rd/p/12.34.html?a=/main/html/rd/p/5.6.html''"
    using digit_string_examples by (simp add: release_occurs_def)
  from extractReleaseID_unanchored [OF o] o show ?thesis by blast
qed

section \<open>The claim about the Date Normalizer\<close>







text \<open>
  Beyond these counts the behaviour is a different one. The duration of 3000000 hours
  does not fit 64 bits and wraps around, and the result lies in the future; a count that
  \<open>strconv.Atoi\<close> rejects leaves the hours-ago form unrecognised, and the next form is tried.
\<close>

lemma relative_hours_wrap_example:
  "parseReleaseDate example_now (''3000000'' @ jikan_mae)
     = ''2267'' @ kanji_nen @ ''04'' @ kanji_gatsu @ ''09'' @ kanji_nichi @ '' 19:04''"
  by code_simp

lemma relative_hours_range_example:
  "parseReleaseDate example_now (''99999999999999999999'' @ jikan_mae @ ''5'' @ fun_mae)
     = ''2024'' @ kanji_nen @ ''12'' @ kanji_gatsu @ ''14'' @ kanji_nichi @ '' 19:25''"
  by code_simp

section \<open>The claims about the handler\<close>

lemma example_run:
  "handlePRTimesPosts example_world (query ''go'' [])
     = Some (OK [example_item ''/about'' 7, example_item ''/main/html/rd/p/5.6.html'' 3],
             example_trace)"
  by code_simp



lemma example_query:
  "Get (query keyword limit) ''keyword'' = keyword"
  "Get (query keyword []) ''limit'' = ''''"
  "Get (query keyword [l]) ''limit'' = l"
  by (simp_all add: Get_def query_def)

lemma example_discovery:
  "listing example_world Discovery ''go'' 1 = Inr (example_page 1 2 [example_release ''/discovered''])"
  "LastPage (example_page 1 2 [example_release ''/discovered'']) = 2"
  by (simp_all add: example_world_def example_page_def)

lemma length_finalize:
  "length (finalize limit results) =
     (if 0 < limit then min (nat limit) (length results) else length results)"
  by (auto simp: finalize_def)



text \<open>
  C1, as stated, fails for a limit parameter equal to 0: the request is rejected and no
  sequence is returned.
\<close>

theorem limit_zero_counterexample:
  "handlePRTimesPosts example_world (query ''go'' [''0''])
     = Some (BadRequest ''limit query parameter must be a positive integer'', [])"
  by code_simp

text \<open>
  C1, amended: for a request with a keyword whose first fetch succeeds, if the limit
  parameter parses to a positive \<open>int\<close> \<open>L\<close> and \<open>R\<close> items were collected, the returned
  sequence has length \<open>min L R\<close>; if the limit parameter is absent (or empty), it has length
  \<open>R\<close>. (A limit parameter equal to 0 is rejected.)
\<close>

theorem limit_truncation:
  assumes "Get q ''keyword'' \<noteq> ''''"
    and "listing w Discovery (Get q ''keyword'') 1 = Inr firstPageData"
    and "LastPage firstPageData < 2 ^ 63 - 1"
  shows "(Atoi (Get q ''limit'') = Inr L \<and> 0 < L \<longrightarrow>
            (\<exists>items trace. handlePRTimesPosts w q = Some (OK items, trace)
               \<and> length items = min (nat L) (length (appended trace))))
       \<and> (Get q ''limit'' = '''' \<longrightarrow>
            (\<exists>items trace. handlePRTimesPosts w q = Some (OK items, trace)
               \<and> length items = length (appended trace)))"
proof (intro conjI impI)
  assume "Atoi (Get q ''limit'') = Inr L \<and> 0 < L"
  then have l: "limit_of q = Some L" and L: "0 < L" by (simp_all add: limit_of_Some)
  from handler_success [OF assms(1) l assms(2,3)] L
  show "\<exists>items trace. handlePRTimesPosts w q = Some (OK items, trace)
               \<and> length items = min (nat L) (length (appended trace))"
    by (simp add: length_finalize length_sort_Slice)
next
  assume "Get q ''limit'' = ''''"
  then have l: "limit_of q = Some 0" by (simp add: limit_of_Some)
  from handler_success [OF assms(1) l assms(2,3)]
  show "\<exists>items trace. handlePRTimesPosts w q = Some (OK items, trace)
               \<and> length items = length (appended trace)"
    by (simp add: length_finalize length_sort_Slice)
qed

theorem limit_truncation_witness:
  "Get (query ''go'' [''1'']) ''keyword'' \<noteq> ''''
   \<and> listing example_world Discovery (Get (query ''go'' [''1'']) ''keyword'') 1
       = Inr (example_page 1 2 [example_release ''/discovered''])
   \<and> LastPage (example_page 1 2 [example_release ''/discovered'']) < 2 ^ 63 - 1
   \<and> Atoi (Get (query ''go'' [''1'']) ''limit'') = Inr 1 \<and> (0::int) < 1
   \<and> (\<exists>items trace. handlePRTimesPosts example_world (query ''go'' [''1'']) = Some (OK items, trace)
          \<and> length items = min (nat 1) (length (appended trace)))
   \<and> Get (query ''go'' []) ''keyword'' \<noteq> ''''
   \<and> listing example_world Discovery (Get (query ''go'' []) ''keyword'') 1
       = Inr (example_page 1 2 [example_release ''/discovered''])
   \<and> Get (query ''go'' []) ''limit'' = ''''
   \<and> (\<exists>items trace. handlePRTimesPosts example_world (query ''go'' []) = Some (OK items, trace)
          \<and> length items = length (appended trace))"
proof -
  have a: "Get (query ''go'' [''1'']) ''keyword'' \<noteq> ''''"
    by (simp add: example_query)
  have b: "listing example_world Discovery (Get (query ''go'' [''1'']) ''keyword'') 1
       = Inr (example_page 1 2 [example_release ''/discovered''])"
    by (simp add: example_query example_discovery)
  have c: "LastPage (example_page 1 2 [example_release ''/discovered'']) < 2 ^ 63 - 1"
    by (simp add: example_discovery)
  have d: "Atoi (Get (query ''go'' [''1'']) ''limit'') = Inr 1"
    unfolding example_query by code_simp
  have a': "Get (query ''go'' []) ''keyword'' \<noteq> ''''"
    by (simp add: example_query)
  have b': "listing example_world Discovery (Get (query ''go'' []) ''keyword'') 1
       = Inr (example_page 1 2 [example_release ''/discovered''])"
    by (simp add: example_query example_discovery)
  have e': "Get (query ''go'' []) ''limit'' = ''''"
    by (simp add: example_query)
  from limit_truncation [OF a b c, of 1] limit_truncation [OF a' b' c, of 0] a b c d a' b' e'
  show ?thesis by simp
qed

text \<open>
  C4: in every returned sequence the popularity count at each position is at least the
  count at the next position.
\<close>

theorem popularity_descending:
  assumes "handlePRTimesPosts w q = Some (OK items, trace)"
  shows "\<forall>i. i + 1 < length items \<longrightarrow> LikeCount (items ! (i + 1)) \<le> LikeCount (items ! i)"
proof -
  from handler_OK_D [OF assms] obtain limit results
    where items: "items = finalize limit (sort_Slice (ties w) less_LikeCount results)"
    by blast
  have s: "sorted_wrt (\<lambda>a b. LikeCount b \<le> LikeCount a) items"
    unfolding items finalize_def by (simp add: sorted_sort_Slice sorted_wrt_take)
  show ?thesis
  proof (intro allI impI)
    fix i assume "i + 1 < length items"
    then show "LikeCount (items ! (i + 1)) \<le> LikeCount (items ! i)"
      using s by (simp add: sorted_wrt_iff_nth_less)
  qed
qed

theorem popularity_descending_witness:
  "handlePRTimesPosts example_world (query ''go'' [])
     = Some (OK [example_item ''/about'' 7, example_item ''/main/html/rd/p/5.6.html'' 3],
             example_trace)
   \<and> 0 + 1 < length [example_item ''/about'' 7, example_item ''/main/html/rd/p/5.6.html'' 3]
   \<and> LikeCount ([example_item ''/about'' 7, example_item ''/main/html/rd/p/5.6.html'' 3] ! (0 + 1))
       \<le> LikeCount ([example_item ''/about'' 7, example_item ''/main/html/rd/p/5.6.html'' 3] ! 0)"
  using popularity_descending [OF example_run] example_run by simp

text \<open>
  C7: when the keyword and the limit are accepted and the first fetch of page 1 fails, the
  response is an error and that fetch is the only upstream call.
\<close>

theorem first_page_failure_is_fatal:
  assumes "Get q ''keyword'' \<noteq> ''''" "limit_of q = Some limit"
    and "listing w Discovery (Get q ''keyword'') 1 = Inl err"
  shows "handlePRTimesPosts w q
           = Some (InternalServerError ''Failed to fetch data from PR TIMES API'',
                   [GetListing (Get q ''keyword'') 1])"
  using assms by (rule handler_first_page_failed)

theorem first_page_failure_is_fatal_witness:
  "Get (query ''go'' []) ''keyword'' \<noteq> '''' \<and> limit_of (query ''go'' []) = Some 0
   \<and> listing example_world_down Discovery (Get (query ''go'' []) ''keyword'') 1 = Inl GetFailed
   \<and> handlePRTimesPosts example_world_down (query ''go'' [])
       = Some (InternalServerError ''Failed to fetch data from PR TIMES API'',
               [GetListing ''go'' 1])"
proof -
  have a: "Get (query ''go'' []) ''keyword'' \<noteq> ''''" by (simp add: example_query)
  have b: "limit_of (query ''go'' []) = Some 0" by (simp add: limit_of_def example_query)
  have c: "listing example_world_down Discovery (Get (query ''go'' []) ''keyword'') 1 = Inl GetFailed"
    by (simp add: example_world_down_def)
  from first_page_failure_is_fatal [OF a b c] a b c show ?thesis by (simp add: example_query)
qed

text \<open>
  C8: a request without keyword (or with an empty one), and a request whose limit parameter
  is present and is not a number or not positive, is rejected as a bad request, and no
  upstream call is made.
\<close>

theorem invalid_input_rejected:
  assumes "Get q ''keyword'' = ''''
     \<or> (Get q ''limit'' \<noteq> ''''
        \<and> (case Atoi (Get q ''limit'') of Inl err \<Rightarrow> True | Inr limit \<Rightarrow> limit \<le> 0))"
  shows "\<exists>message. handlePRTimesPosts w q = Some (BadRequest message, [])"
proof (cases "Get q ''keyword'' = ''''")
  case True
  then show ?thesis using handler_no_keyword by blast
next
  case False
  with assms have "limit_of q = None" by (simp add: limit_of_None)
  with False show ?thesis using handler_bad_limit by blast
qed

theorem invalid_input_rejected_witness:
  "(Get (query ''go'' [''-3'']) ''keyword'' = ''''
     \<or> (Get (query ''go'' [''-3'']) ''limit'' \<noteq> ''''
        \<and> (case Atoi (Get (query ''go'' [''-3'']) ''limit'') of
             Inl err \<Rightarrow> True | Inr limit \<Rightarrow> limit \<le> 0)))
   \<and> (\<exists>message. handlePRTimesPosts example_world (query ''go'' [''-3''])
                   = Some (BadRequest message, []))
   \<and> (Get (query ''go'' [''ten'']) ''keyword'' = ''''
     \<or> (Get (query ''go'' [''ten'']) ''limit'' \<noteq> ''''
        \<and> (case Atoi (Get (query ''go'' [''ten'']) ''limit'') of
             Inl err \<Rightarrow> True | Inr limit \<Rightarrow> limit \<le> 0)))
   \<and> (\<exists>message. handlePRTimesPosts example_world (query ''go'' [''ten''])
                   = Some (BadRequest message, []))
   \<and> Get (query '''' []) ''keyword'' = ''''
   \<and> (\<exists>message. handlePRTimesPosts example_world (query '''' [])
                   = Some (BadRequest message, []))"
proof -
  have n: "Atoi ''-3'' = Inr (- 3)" "Atoi ''ten'' = Inl ErrSyntax" by code_simp+
  have a: "Get (query ''go'' [''-3'']) ''keyword'' = ''''
     \<or> (Get (query ''go'' [''-3'']) ''limit'' \<noteq> ''''
        \<and> (case Atoi (Get (query ''go'' [''-3'']) ''limit'') of
             Inl err \<Rightarrow> True | Inr limit \<Rightarrow> limit \<le> 0))"
    by (simp add: example_query n)
  have b: "Get (query ''go'' [''ten'']) ''keyword'' = ''''
     \<or> (Get (query ''go'' [''ten'']) ''limit'' \<noteq> ''''
        \<and> (case Atoi (Get (query ''go'' [''ten'']) ''limit'') of
             Inl err \<Rightarrow> True | Inr limit \<Rightarrow> limit \<le> 0))"
    by (simp add: example_query n)
  have c: "Get (query '''' []) ''keyword'' = ''''" by (simp add: example_query)
  from invalid_input_rejected [OF a, of example_world]
    invalid_input_rejected [OF b, of example_world]
    invalid_input_rejected [of "query '''' []" example_world] a b c
  show ?thesis by blast
qed

lemma set_fan_out:
  "set (fan_out w keyword n) = (\<Union>page\<in>{1 .. n}. set (page_task w keyword page))"
  by (simp add: fan_out_def set_interleave)

lemma release_events_in_page_task:
  assumes "listing w FanOut keyword page = Inr prTimesData" "i < length (ReleaseList prTimesData)"
  shows "set (process_release w page i (ReleaseList prTimesData ! i))
           \<subseteq> set (page_task w keyword page)"
proof -
  have "(i, ReleaseList prTimesData ! i) \<in> set (enumerate 0 (ReleaseList prTimesData))"
    using assms(2) by (simp add: in_set_enumerate_eq)
  then show ?thesis using assms(1) by (fastforce simp: page_task_def)
qed







text \<open>
  C2, as stated, fails: for a listing whose identifier is empty the popularity endpoint is
  called all the same, with the empty identifier, and the count it answers is used.
\<close>

theorem empty_identifier_lookup_counterexample:
  "extractReleaseID ''/about'' = ''''
   \<and> handlePRTimesPosts example_world (query ''go'' [])
       = Some (OK [example_item ''/about'' 7, example_item ''/main/html/rd/p/5.6.html'' 3],
               example_trace)
   \<and> GetLikeCount '''' \<in> set example_trace
   \<and> LikeCount (example_item ''/about'' 7) = 7"
proof (intro conjI)
  show "extractReleaseID ''/about'' = ''''" by code_simp
  show "handlePRTimesPosts example_world (query ''go'' [])
       = Some (OK [example_item ''/about'' 7, example_item ''/main/html/rd/p/5.6.html'' 3],
               example_trace)"
    by (rule example_run)
  show "GetLikeCount '''' \<in> set example_trace" by (simp add: example_trace_def)
  show "LikeCount (example_item ''/about'' 7) = 7" by (simp add: example_item_def)
qed

text \<open>
  C2, amended: for every listing of a page fetched in the loop, whatever its identifier (the
  empty string included), the orchestrator calls the popularity endpoint with the extracted
  identifier and appends the item of the listing; the item's popularity count is 0 when that
  call fails and the answered count otherwise.
\<close>

theorem popularity_lookup:
  assumes "handlePRTimesPosts w q = Some (OK items, trace)"
    and "listing w Discovery (Get q ''keyword'') 1 = Inr firstPageData"
    and "1 \<le> page" "page \<le> LastPage firstPageData"
    and "listing w FanOut (Get q ''keyword'') page = Inr prTimesData"
    and "i < length (ReleaseList prTimesData)"
  shows "GetLikeCount (extractReleaseID (ReleaseURL (ReleaseList prTimesData ! i))) \<in> set trace
     \<and> Append (expected_item w page i (ReleaseList prTimesData ! i)) \<in> set trace
     \<and> LikeCount (expected_item w page i (ReleaseList prTimesData ! i))
         = (case like_count w page i (extractReleaseID (ReleaseURL (ReleaseList prTimesData ! i))) of
              Inl err \<Rightarrow> 0 | Inr n \<Rightarrow> n)"
proof -
  from handler_OK_D [OF assms(1)] assms(2)
  have t: "trace = GetListing (Get q ''keyword'') 1
                     # fan_out w (Get q ''keyword'') (LastPage firstPageData)"
    by auto
  have "set (process_release w page i (ReleaseList prTimesData ! i))
          \<subseteq> set (page_task w (Get q ''keyword'') page)"
    using assms(5,6) by (rule release_events_in_page_task)
  also have "\<dots> \<subseteq> set (fan_out w (Get q ''keyword'') (LastPage firstPageData))"
    using assms(3,4) unfolding set_fan_out by auto
  finally have "set (process_release w page i (ReleaseList prTimesData ! i)) \<subseteq> set trace"
    unfolding t by auto
  then show ?thesis by (simp add: process_release_events expected_item_def)
qed

theorem popularity_lookup_witness:
  "handlePRTimesPosts example_world (query ''go'' [])
     = Some (OK [example_item ''/about'' 7, example_item ''/main/html/rd/p/5.6.html'' 3],
             example_trace)
   \<and> listing example_world Discovery (Get (query ''go'' []) ''keyword'') 1
       = Inr (example_page 1 2 [example_release ''/discovered''])
   \<and> (1::int) \<le> 1 \<and> 1 \<le> LastPage (example_page 1 2 [example_release ''/discovered''])
   \<and> listing example_world FanOut (Get (query ''go'' []) ''keyword'') 1
       = Inr (example_page 1 2
                [example_release ''/main/html/rd/p/5.6.html'', example_release ''/about''])
   \<and> 1 < length (ReleaseList (example_page 1 2
                [example_release ''/main/html/rd/p/5.6.html'', example_release ''/about'']))
   \<and> GetLikeCount (extractReleaseID (ReleaseURL (example_release ''/about''))) \<in> set example_trace"
proof -
  have b: "listing example_world Discovery (Get (query ''go'' []) ''keyword'') 1
       = Inr (example_page 1 2 [example_release ''/discovered''])"
    by (simp add: example_query example_discovery)
  have c: "(1::int) \<le> 1" "1 \<le> LastPage (example_page 1 2 [example_release ''/discovered''])"
    by (simp_all add: example_discovery)
  have d: "listing example_world FanOut (Get (query ''go'' []) ''keyword'') 1
       = Inr (example_page 1 2
                [example_release ''/main/html/rd/p/5.6.html'', example_release ''/about''])"
    by (simp add: example_world_def)
  have e: "1 < length (ReleaseList (example_page 1 2
                [example_release ''/main/html/rd/p/5.6.html'', example_release ''/about'']))"
    by (simp add: example_page_def)
  from popularity_lookup [OF example_run b c d e] example_run b c d e
  show ?thesis by (simp add: example_page_def)
qed







end
